theory Spec2Isabelle
  imports Main "HOL-Library.Char_ord" "HOL-Library.List_Lexorder"
begin

section \<open>JSON values and \<open>json.dumps(..., sort_keys=True)\<close>\<close>

text \<open>
  The values a payload can hold, and the values \<open>json.load\<close> returns. A Python \<open>str\<close> is
  modelled as a list of code points below 256, a Python \<open>dict\<close> with string keys as an
  association list in insertion order (its keys distinct). Floating-point
  numbers are left out of the model.
\<close>

datatype json =
    JNull
  | JBool bool
  | JInt int
  | JStr string
  | JList "json list"
  | JObj "(string \<times> json) list"

type_synonym pydict = "(string \<times> json) list"

text \<open>\<open>d.get(k)\<close>: the value stored under \<open>k\<close>, or \<open>None\<close>.\<close>

definition dict_get :: "pydict \<Rightarrow> string \<Rightarrow> json option" where
  "dict_get d k = map_of d k"

definition hex_digit :: "nat \<Rightarrow> char" where
  "hex_digit n = (if n < 10 then char_of (48 + n) else char_of (87 + n))"

fun str_nat :: "nat \<Rightarrow> string" where
  "str_nat n =
     (if n < 10 then [char_of (48 + n)]
      else str_nat (n div 10) @ [char_of (48 + n mod 10)])"

declare str_nat.simps [simp del]

definition str_int :: "int \<Rightarrow> string" where
  "str_int i = (if i < 0 then CHR ''-'' # str_nat (nat (- i)) else str_nat (nat i))"

text \<open>
  The string encoder of \<open>json\<close> with \<open>ensure_ascii=True\<close> (the default): the quote and the
  backslash are escaped, the control characters with a short form take it, and every other
  character outside \<open>' '..'~'\<close> becomes \<open>\u00XX\<close> in lower-case hexadecimal.
\<close>

definition escape_char :: "char \<Rightarrow> string" where
  "escape_char c =
     (if c = CHR 0x22 then [CHR 0x5C, CHR 0x22]
      else if c = CHR 0x5C then [CHR 0x5C, CHR 0x5C]
      else if c = CHR 0x0A then [CHR 0x5C, CHR ''n'']
      else if c = CHR 0x0D then [CHR 0x5C, CHR ''r'']
      else if c = CHR 0x09 then [CHR 0x5C, CHR ''t'']
      else if c = CHR 0x08 then [CHR 0x5C, CHR ''b'']
      else if c = CHR 0x0C then [CHR 0x5C, CHR ''f'']
      else if (of_char c :: nat) < 32 \<or> 126 < (of_char c :: nat)
        then [CHR 0x5C, CHR ''u'', CHR ''0'', CHR ''0'',
              hex_digit (of_char c div 16), hex_digit (of_char c mod 16)]
      else [c])"

definition encode_str :: "string \<Rightarrow> string" where
  "encode_str s = CHR 0x22 # concat (map escape_char s) @ [CHR 0x22]"

fun join :: "string \<Rightarrow> string list \<Rightarrow> string" where
  "join sep [] = []"
| "join sep [x] = x"
| "join sep (x # y # zs) = x @ sep @ join sep (y # zs)"

text \<open>
  \<open>json.dumps(v, sort_keys=True)\<close> with the default separators \<open>", "\<close> and \<open>": "\<close>: the
  items of every object, at every depth, are written in the order of their keys.
\<close>

fun dumps :: "json \<Rightarrow> string" where
  "dumps JNull = ''null''"
| "dumps (JBool b) = (if b then ''true'' else ''false'')"
| "dumps (JInt i) = str_int i"
| "dumps (JStr s) = encode_str s"
| "dumps (JList xs) = ''['' @ join '', '' (map dumps xs) @ '']''"
| "dumps (JObj kvs) =
     ''{'' @ join '', ''
        (map (\<lambda>kv. encode_str (fst kv) @ '': '' @ dumps (snd kv)) (sort_key fst kvs)) @ ''}''"

section \<open>Block\<close>

text \<open>
  \<open>class Block\<close>, its fields typed as the constructor annotates them. The SHA-256 of
  \<open>hashlib\<close> is a parameter \<open>H\<close> of every operation that hashes: it maps the text of a
  block to the hexadecimal digest, and nothing below depends on which function it is.
\<close>

record block =
  index :: int
  timestamp :: string
  data :: pydict
  previous_hash :: string
  nonce :: int
  hash :: string

definition calculate_hash :: "(string \<Rightarrow> string) \<Rightarrow> block \<Rightarrow> string" where
  "calculate_hash H b =
     H (dumps (JObj [(''index'', JInt (index b)),
                     (''timestamp'', JStr (timestamp b)),
                     (''data'', JObj (data b)),
                     (''previous_hash'', JStr (previous_hash b)),
                     (''nonce'', JInt (nonce b))]))"

text \<open>\<open>Block.__init__\<close>: the nonce starts at 0 and the digest is computed once.\<close>

definition Block :: "(string \<Rightarrow> string) \<Rightarrow> int \<Rightarrow> string \<Rightarrow> pydict \<Rightarrow> string \<Rightarrow> block" where
  "Block H i ts d ph =
     (let self = \<lparr>index = i, timestamp = ts, data = d, previous_hash = ph, nonce = 0, hash = []\<rparr>
      in self\<lparr>hash := calculate_hash H self\<rparr>)"

text \<open>
  Python's \<open>s[:d]\<close> and \<open>"0" * d\<close> for any integer \<open>d\<close>: a negative \<open>d\<close> cuts \<open>-d\<close>
  characters off the end of the slice and gives the empty product.
\<close>

definition slice_to :: "int \<Rightarrow> string \<Rightarrow> string" where
  "slice_to d s = (if 0 \<le> d then take (nat d) s else take (length s - nat (- d)) s)"

definition target :: "int \<Rightarrow> string" where
  "target d = replicate (nat d) CHR ''0''"

text \<open>
  \<open>Block.mine_block\<close>. The loop has no bound, so the result is an option: \<open>None\<close> is the
  loop that never ends.
\<close>

partial_function (option) mine_block :: "(string \<Rightarrow> string) \<Rightarrow> int \<Rightarrow> block \<Rightarrow> block option" where
  "mine_block H difficulty self =
     (if slice_to difficulty (hash self) \<noteq> target difficulty
      then mine_block H difficulty
             (let self' = self\<lparr>nonce := nonce self + 1\<rparr>
              in self'\<lparr>hash := calculate_hash H self'\<rparr>)
      else Some self)"

declare mine_block.simps [code]

definition to_dict :: "block \<Rightarrow> json" where
  "to_dict b =
     JObj [(''index'', JInt (index b)),
           (''timestamp'', JStr (timestamp b)),
           (''data'', JObj (data b)),
           (''previous_hash'', JStr (previous_hash b)),
           (''nonce'', JInt (nonce b)),
           (''hash'', JStr (hash b))]"

section \<open>DocumentBlockchain\<close>

datatype py_error =
    IndexError
  | KeyError string
  | TypeError
  | JSONDecodeError
  | UnicodeDecodeError

record document_blockchain =
  chain :: "block list"
  difficulty :: int
  pending_documents :: "pydict list"

text \<open>
  \<open>is_chain_valid\<close>: the loop \<open>for i in range(1, len(self.chain))\<close>, from the index \<open>i\<close>.
\<close>

function is_chain_valid_from :: "(string \<Rightarrow> string) \<Rightarrow> block list \<Rightarrow> nat \<Rightarrow> bool" where
  "is_chain_valid_from H c i =
     (if i < length c then
        (let current_block = c ! i; previous_block = c ! (i - 1) in
         if hash current_block \<noteq> calculate_hash H current_block then False
         else if previous_hash current_block \<noteq> hash previous_block then False
         else is_chain_valid_from H c (i + 1))
      else True)"
  by pat_completeness auto
termination
  by (relation "measure (\<lambda>(H, c, i). length c - i)") auto

declare is_chain_valid_from.simps [simp del]

definition is_chain_valid :: "(string \<Rightarrow> string) \<Rightarrow> document_blockchain \<Rightarrow> bool" where
  "is_chain_valid H self = is_chain_valid_from H (chain self) 1"

text \<open>\<open>get_latest_block\<close>: \<open>self.chain[-1]\<close> raises \<open>IndexError\<close> on the empty list.\<close>

definition get_latest_block :: "document_blockchain \<Rightarrow> py_error + block" where
  "get_latest_block self = (if chain self = [] then Inl IndexError else Inr (last (chain self)))"

text \<open>
  The clock \<open>datetime.now().isoformat()\<close> is an input \<open>now\<close> of the operations that read
  it. An operation that mines returns \<open>None\<close> when the mining loop does not end.
\<close>

definition create_genesis_block ::
  "(string \<Rightarrow> string) \<Rightarrow> document_blockchain \<Rightarrow> string \<Rightarrow> document_blockchain option" where
  "create_genesis_block H self now =
     (case mine_block H (difficulty self)
             (Block H 0 now
                [(''type'', JStr ''genesis''),
                 (''message'', JStr ''Genesis Block - DocuChain System'')]
                ''0'') of
        None \<Rightarrow> None
      | Some genesis_block \<Rightarrow> Some (self\<lparr>chain := chain self @ [genesis_block]\<rparr>))"

text \<open>\<open>DocumentBlockchain.__init__\<close>.\<close>

definition DocumentBlockchain ::
  "(string \<Rightarrow> string) \<Rightarrow> int \<Rightarrow> string \<Rightarrow> document_blockchain option" where
  "DocumentBlockchain H d now =
     create_genesis_block H \<lparr>chain = [], difficulty = d, pending_documents = []\<rparr> now"

text \<open>
  \<open>add_document\<close>: the new ledger and the dictionary returned, or the exception raised
  (by \<open>get_latest_block\<close>, before anything is changed).
\<close>

definition add_document ::
  "(string \<Rightarrow> string) \<Rightarrow> document_blockchain \<Rightarrow> string \<Rightarrow> pydict
     \<Rightarrow> (py_error + document_blockchain \<times> pydict) option" where
  "add_document H self now document_data =
     (case get_latest_block self of
        Inl e \<Rightarrow> Some (Inl e)
      | Inr latest \<Rightarrow>
          (case mine_block H (difficulty self)
                  (Block H (int (length (chain self))) now document_data (hash latest)) of
             None \<Rightarrow> None
           | Some new_block \<Rightarrow>
               Some (Inr (self\<lparr>chain := chain self @ [new_block]\<rparr>,
                          [(''success'', JBool True),
                           (''block_number'', JInt (index new_block)),
                           (''block_hash'', JStr (hash new_block)),
                           (''timestamp'', JStr (timestamp new_block))]))))"

text \<open>\<open>verify_document\<close>: the loop over \<open>self.chain[1:]\<close>.\<close>

fun verify_document_loop :: "block list \<Rightarrow> string \<Rightarrow> pydict option" where
  "verify_document_loop [] document_hash = None"
| "verify_document_loop (b # bs) document_hash =
     (if dict_get (data b) ''document_hash'' = Some (JStr document_hash)
      then Some [(''valid'', JBool True),
                 (''block_number'', JInt (index b)),
                 (''timestamp'', JStr (timestamp b)),
                 (''data'', JObj (data b))]
      else verify_document_loop bs document_hash)"

definition verify_document :: "document_blockchain \<Rightarrow> string \<Rightarrow> pydict option" where
  "verify_document self document_hash = verify_document_loop (drop 1 (chain self)) document_hash"

subsection \<open>Persistence\<close>

text \<open>
  A file holds bytes that are no text in the encoding \<open>open\<close> reads with, or text that
  is no JSON, or a JSON document. The text written by \<open>json.dump\<close> and read back by
  \<open>json.load\<close> is the library's and is not modelled: a file that holds a document holds
  its value. The file system maps names to files.
\<close>

datatype file_content = Undecodable | Garbled | Document json

type_synonym files = "string \<Rightarrow> file_content option"

definition save_to_file :: "document_blockchain \<Rightarrow> string \<Rightarrow> files \<Rightarrow> files" where
  "save_to_file self filename fs = fs(filename \<mapsto> Document (JList (map to_dict (chain self))))"

text \<open>
  \<open>load_from_file\<close> checks the type of nothing it reads: after it, an attribute of a
  \<open>Block\<close> holds whatever JSON value the record stored. \<open>block_object\<close> is a \<open>Block\<close> with
  such attributes and \<open>blockchain_object\<close> a ledger whose chain holds such blocks;
  \<open>as_object\<close> and \<open>as_objects\<close> give the objects of a block and of a ledger of the data
  model, \<open>as_block\<close> and \<open>as_blockchain\<close> read an object back when its values have the
  annotated types.
\<close>

record block_object =
  index_v :: json
  timestamp_v :: json
  data_v :: json
  previous_hash_v :: json
  nonce_v :: json
  hash_v :: json

record blockchain_object =
  chain_v :: "block_object list"
  difficulty_v :: int
  pending_documents_v :: "pydict list"

definition as_object :: "block \<Rightarrow> block_object" where
  "as_object b =
     \<lparr>index_v = JInt (index b), timestamp_v = JStr (timestamp b), data_v = JObj (data b),
      previous_hash_v = JStr (previous_hash b), nonce_v = JInt (nonce b),
      hash_v = JStr (hash b)\<rparr>"

definition as_objects :: "document_blockchain \<Rightarrow> blockchain_object" where
  "as_objects L =
     \<lparr>chain_v = map as_object (chain L), difficulty_v = difficulty L,
      pending_documents_v = pending_documents L\<rparr>"

fun as_int :: "json \<Rightarrow> int option" where
  "as_int (JInt i) = Some i"
| "as_int _ = None"

fun as_str :: "json \<Rightarrow> string option" where
  "as_str (JStr s) = Some s"
| "as_str _ = None"

fun as_dict :: "json \<Rightarrow> pydict option" where
  "as_dict (JObj kvs) = Some kvs"
| "as_dict _ = None"

definition as_block :: "block_object \<Rightarrow> block option" where
  "as_block ob =
     (case (as_int (index_v ob), as_str (timestamp_v ob), as_dict (data_v ob),
            as_str (previous_hash_v ob), as_int (nonce_v ob), as_str (hash_v ob)) of
        (Some i, Some ts, Some d, Some ph, Some n, Some h) \<Rightarrow>
          Some \<lparr>index = i, timestamp = ts, data = d, previous_hash = ph, nonce = n, hash = h\<rparr>
      | _ \<Rightarrow> None)"

definition as_blockchain :: "blockchain_object \<Rightarrow> document_blockchain option" where
  "as_blockchain self =
     (case those (map as_block (chain_v self)) of
        None \<Rightarrow> None
      | Some c \<Rightarrow> Some \<lparr>chain = c, difficulty = difficulty_v self,
                         pending_documents = pending_documents_v self\<rparr>)"

text \<open>
  \<open>calculate_hash\<close> and \<open>Block.__init__\<close> on such attributes: \<open>json.dumps\<close> serialises
  any JSON value.
\<close>

definition calculate_hash_object :: "(string \<Rightarrow> string) \<Rightarrow> block_object \<Rightarrow> string" where
  "calculate_hash_object H ob =
     H (dumps (JObj [(''index'', index_v ob),
                     (''timestamp'', timestamp_v ob),
                     (''data'', data_v ob),
                     (''previous_hash'', previous_hash_v ob),
                     (''nonce'', nonce_v ob)]))"

definition Block_object ::
  "(string \<Rightarrow> string) \<Rightarrow> json \<Rightarrow> json \<Rightarrow> json \<Rightarrow> json \<Rightarrow> block_object" where
  "Block_object H i ts d ph =
     (let self = \<lparr>index_v = i, timestamp_v = ts, data_v = d, previous_hash_v = ph,
                  nonce_v = JInt 0, hash_v = JNull\<rparr>
      in self\<lparr>hash_v := JStr (calculate_hash_object H self)\<rparr>)"

text \<open>
  What \<open>for block_data in chain_data\<close> iterates over: the elements of a list, the keys of
  an object, the characters of a string; any other value is not iterable.
\<close>

fun py_iter :: "json \<Rightarrow> py_error + json list" where
  "py_iter (JList xs) = Inr xs"
| "py_iter (JObj kvs) = Inr (map (\<lambda>kv. JStr (fst kv)) kvs)"
| "py_iter (JStr s) = Inr (map (\<lambda>c. JStr [c]) s)"
| "py_iter _ = Inl TypeError"

text \<open>\<open>block_data[k]\<close> for a string \<open>k\<close>: only an object can be subscripted by a string.\<close>

fun getitem :: "json \<Rightarrow> string \<Rightarrow> py_error + json" where
  "getitem (JObj kvs) k = (case map_of kvs k of None \<Rightarrow> Inl (KeyError k) | Some v \<Rightarrow> Inr v)"
| "getitem _ k = Inl TypeError"

text \<open>
  One turn of the loop of \<open>load_from_file\<close>: the four subscripts that are the arguments
  of the constructor, in the order the source evaluates them, the constructor call, and
  the two assignments that overwrite the nonce and the digest, each after its subscript.
  No value is examined.
\<close>

definition block_of_record :: "(string \<Rightarrow> string) \<Rightarrow> json \<Rightarrow> py_error + block_object" where
  "block_of_record H block_data =
     (case getitem block_data ''index'' of Inl e \<Rightarrow> Inl e | Inr i \<Rightarrow>
      case getitem block_data ''timestamp'' of Inl e \<Rightarrow> Inl e | Inr ts \<Rightarrow>
      case getitem block_data ''data'' of Inl e \<Rightarrow> Inl e | Inr d \<Rightarrow>
      case getitem block_data ''previous_hash'' of Inl e \<Rightarrow> Inl e | Inr ph \<Rightarrow>
      (let block = Block_object H i ts d ph in
       case getitem block_data ''nonce'' of Inl e \<Rightarrow> Inl e | Inr n \<Rightarrow>
       case getitem block_data ''hash'' of Inl e \<Rightarrow> Inl e | Inr h \<Rightarrow>
       Inr (block\<lparr>nonce_v := n, hash_v := h\<rparr>)))"

text \<open>
  The loop of \<open>load_from_file\<close> over the records: \<open>acc\<close> is \<open>self.chain\<close>, and an exception
  leaves it as it stands at that moment.
\<close>

fun load_loop ::
  "(string \<Rightarrow> string) \<Rightarrow> block_object list \<Rightarrow> json list
     \<Rightarrow> block_object list \<times> py_error option" where
  "load_loop H acc [] = (acc, None)"
| "load_loop H acc (block_data # rest) =
     (case block_of_record H block_data of
        Inl e \<Rightarrow> (acc, Some e)
      | Inr b \<Rightarrow> load_loop H (acc @ [b]) rest)"

text \<open>
  \<open>load_from_file\<close>: the ledger afterwards, and the value returned (\<open>Inr\<close>) or the
  exception that leaves the method (\<open>Inl\<close>). Only \<open>FileNotFoundError\<close> is caught.
\<close>

definition load_from_file ::
  "(string \<Rightarrow> string) \<Rightarrow> blockchain_object \<Rightarrow> string \<Rightarrow> files
     \<Rightarrow> blockchain_object \<times> (py_error + bool)" where
  "load_from_file H self filename fs =
     (case fs filename of
        None \<Rightarrow> (self, Inr False)
      | Some Undecodable \<Rightarrow> (self, Inl UnicodeDecodeError)
      | Some Garbled \<Rightarrow> (self, Inl JSONDecodeError)
      | Some (Document chain_data) \<Rightarrow>
          (case py_iter chain_data of
             Inl e \<Rightarrow> (self\<lparr>chain_v := []\<rparr>, Inl e)
           | Inr records \<Rightarrow>
               (case load_loop H [] records of
                  (c, Some e) \<Rightarrow> (self\<lparr>chain_v := c\<rparr>, Inl e)
                | (c, None) \<Rightarrow> (self\<lparr>chain_v := c\<rparr>, Inr True))))"

subsection \<open>Ledgers built by the program\<close>

text \<open>
  The ledgers that the constructor and any number of calls of \<open>add_document\<close> produce.
\<close>

inductive built :: "(string \<Rightarrow> string) \<Rightarrow> document_blockchain \<Rightarrow> bool" for H where
  fresh: "DocumentBlockchain H d now = Some L \<Longrightarrow> built H L"
| appended: "built H L \<Longrightarrow> add_document H L now p = Some (Inr (L', r)) \<Longrightarrow> built H L'"

section \<open>Notions the properties are stated with\<close>

text \<open>
  The condition under which the loop of \<open>mine_block\<close> stops, and the block after \<open>k\<close> turns
  of the loop: the nonce is \<open>k\<close> higher and the digest is computed over it.
\<close>

definition sealed :: "int \<Rightarrow> block \<Rightarrow> bool" where
  "sealed d b \<longleftrightarrow> slice_to d (hash b) = target d"

definition attempt :: "(string \<Rightarrow> string) \<Rightarrow> block \<Rightarrow> nat \<Rightarrow> block" where
  "attempt H b k =
     (if k = 0 then b
      else (let self' = b\<lparr>nonce := nonce b + int k\<rparr> in self'\<lparr>hash := calculate_hash H self'\<rparr>))"

text \<open>
  The test of the loop of \<open>verify_document\<close> on one block, and the dictionary returned for
  the block that passes it.
\<close>

definition matches :: "string \<Rightarrow> block \<Rightarrow> bool" where
  "matches h b \<longleftrightarrow> dict_get (data b) ''document_hash'' = Some (JStr h)"

definition found :: "block \<Rightarrow> pydict" where
  "found b = [(''valid'', JBool True), (''block_number'', JInt (index b)),
              (''timestamp'', JStr (timestamp b)), (''data'', JObj (data b))]"

text \<open>The six subscripts of the loop of \<open>load_from_file\<close>, in the order it takes them.\<close>

definition required_fields :: "string list" where
  "required_fields = [''index'', ''timestamp'', ''data'', ''previous_hash'', ''nonce'', ''hash'']"

text \<open>
  Two JSON values are the same value when they differ at most in the order in which the
  keys of their objects were inserted, at any depth. The keys of an object are distinct,
  as those of a Python \<open>dict\<close> are.
\<close>

inductive same_value :: "json \<Rightarrow> json \<Rightarrow> bool" where
  sv_null: "same_value JNull JNull"
| sv_bool: "same_value (JBool b) (JBool b)"
| sv_int: "same_value (JInt i) (JInt i)"
| sv_str: "same_value (JStr s) (JStr s)"
| sv_list: "list_all2 same_value xs ys \<Longrightarrow> same_value (JList xs) (JList ys)"
| sv_obj: "distinct (map fst xs) \<Longrightarrow> distinct (map fst ys)
     \<Longrightarrow> set (map fst xs) = set (map fst ys)
     \<Longrightarrow> (\<And>k. k \<in> set (map fst xs) \<Longrightarrow> same_value (the (map_of xs k)) (the (map_of ys k)))
     \<Longrightarrow> same_value (JObj xs) (JObj ys)"






subsection \<open>Notions the proofs about the serialisation use\<close>






section \<open>Examples to compute with\<close>

text \<open>
  A hash function with four hexadecimal digits, for the examples: the theorems hold for
  every \<open>H\<close>, and the examples instantiate them with this one.
\<close>

definition toy_sha :: "string \<Rightarrow> string" where
  "toy_sha s =
     (let n = sum_list (map of_char s) :: int
      in [hex_digit (nat (n mod 2)), hex_digit (nat (n div 2 mod 2)),
          hex_digit (nat (n div 4 mod 16)), hex_digit (nat (n div 64 mod 16))])"

definition genesis_data :: pydict where
  "genesis_data =
     [(''type'', JStr ''genesis''), (''message'', JStr ''Genesis Block - DocuChain System'')]"

definition diploma :: pydict where
  "diploma = [(''type'', JStr ''document''), (''document_hash'', JStr ''deadbeef''),
              (''recipient_id'', JStr ''alice'')]"

definition block0 :: block where
  "block0 = \<lparr>index = 0, timestamp = ''2024-01-01T00:00:00'', data = genesis_data,
              previous_hash = ''0'', nonce = 3, hash = ''00dc''\<rparr>"

definition block1 :: block where
  "block1 = \<lparr>index = 1, timestamp = ''2024-01-05'', data = diploma,
              previous_hash = ''00dc'', nonce = 3, hash = ''0064''\<rparr>"

definition ledger0 :: document_blockchain where
  "ledger0 = \<lparr>chain = [block0], difficulty = 2, pending_documents = []\<rparr>"

definition ledger1 :: document_blockchain where
  "ledger1 = \<lparr>chain = [block0, block1], difficulty = 2, pending_documents = []\<rparr>"

text \<open>
  A chain that \<open>is_chain_valid\<close> accepts although its first block carries a digest that
  is not the commitment of its fields and its second block is not sealed at the ledger's
  difficulty.
\<close>

definition forged0 :: block where
  "forged0 = \<lparr>index = 7, timestamp = ''never'', data = [], previous_hash = ''0'', nonce = 0, hash = ''beef''\<rparr>"

definition unsealed1 :: block where
  "unsealed1 = \<lparr>index = 1, timestamp = ''2024-01-04T12:01'', data = diploma,
                 previous_hash = ''beef'', nonce = 0, hash = ''104b''\<rparr>"

definition ledger_unsealed :: document_blockchain where
  "ledger_unsealed = \<lparr>chain = [forged0, unsealed1], difficulty = 2, pending_documents = []\<rparr>"

text \<open>
  Two files of records. The first holds two records with the six fields, the second of
  them with a digest that is no hexadecimal string and an index below its predecessor's.
  The second file holds the record of \<open>block0\<close> and a record without nonce.
\<close>

definition tampered_file :: json where
  "tampered_file =
     JList [to_dict block0,
            JObj [(''index'', JInt (- 4)), (''timestamp'', JStr ''2024-01-05''),
                  (''data'', JObj diploma), (''previous_hash'', JStr ''00dc''),
                  (''nonce'', JInt 3), (''hash'', JStr ''not hex!'')]]"

definition truncated_file :: json where
  "truncated_file =
     JList [to_dict block0,
            JObj [(''index'', JInt 1), (''timestamp'', JStr ''2024-01-05''),
                  (''data'', JObj diploma), (''previous_hash'', JStr ''00dc''),
                  (''hash'', JStr ''0064'')],
            to_dict block1]"

text \<open>
  A file whose second record stores a string as index, \<open>null\<close> as nonce, a number as
  payload and a list as digest.
\<close>

definition untyped_file :: json where
  "untyped_file =
     JList [to_dict block0,
            JObj [(''index'', JStr ''one''), (''timestamp'', JStr ''2024-01-05''),
                  (''data'', JInt 7), (''previous_hash'', JStr ''00dc''),
                  (''nonce'', JNull), (''hash'', JList [])],
            to_dict block1]"

text \<open>One payload written with its keys in two orders, the nested object included.\<close>

definition nested :: pydict where
  "nested = [(''type'', JStr ''document''), (''document_hash'', JStr ''deadbeef''),
             (''meta'', JObj [(''issuer'', JStr ''Acme''), (''pages'', JList [JInt 1, JInt 2])])]"

definition nested' :: pydict where
  "nested' = [(''meta'', JObj [(''pages'', JList [JInt 1, JInt 2]), (''issuer'', JStr ''Acme'')]),
              (''document_hash'', JStr ''deadbeef''), (''type'', JStr ''document'')]"



section \<open>The loop of \<open>is_chain_valid\<close>\<close>

lemma is_chain_valid_from_iff:
  "is_chain_valid_from H c i \<longleftrightarrow>
     (\<forall>j. i \<le> j \<and> j < length c \<longrightarrow>
        hash (c ! j) = calculate_hash H (c ! j) \<and> previous_hash (c ! j) = hash (c ! (j - 1)))"
proof (induction H c i rule: is_chain_valid_from.induct)
  case (1 H c i)
  show ?case
  proof (cases "i < length c")
    case False
    then show ?thesis
      by (subst is_chain_valid_from.simps) auto
  next
    case True
    let ?ok = "\<lambda>j. hash (c ! j) = calculate_hash H (c ! j) \<and> previous_hash (c ! j) = hash (c ! (j - 1))"
    show ?thesis
    proof (cases "?ok i")
      case False
      with True have "\<not> is_chain_valid_from H c i"
        by (subst is_chain_valid_from.simps) (auto simp: Let_def)
      moreover from True False have "\<not> (\<forall>j. i \<le> j \<and> j < length c \<longrightarrow> ?ok j)"
        by blast
      ultimately show ?thesis by blast
    next
      case ok: True
      have step: "i \<le> j \<longleftrightarrow> j = i \<or> i + 1 \<le> j" for j
        by arith
      from True ok have "is_chain_valid_from H c i = is_chain_valid_from H c (i + 1)"
        by (subst is_chain_valid_from.simps) (simp add: Let_def)
      also from True ok have "\<dots> = (\<forall>j. i + 1 \<le> j \<and> j < length c \<longrightarrow> ?ok j)"
        using "1.IH" by simp
      also have "\<dots> = (\<forall>j. i \<le> j \<and> j < length c \<longrightarrow> ?ok j)"
        unfolding step using ok by auto
      finally show ?thesis .
    qed
  qed
qed


section \<open>The digest and the mining loop\<close>

lemma calculate_hash_cong:
  "index a = index b \<Longrightarrow> timestamp a = timestamp b \<Longrightarrow> data a = data b
   \<Longrightarrow> previous_hash a = previous_hash b \<Longrightarrow> nonce a = nonce b
   \<Longrightarrow> calculate_hash H a = calculate_hash H b"
  unfolding calculate_hash_def by (simp del: dumps.simps)

lemma calculate_hash_ignores_hash [simp]:
  "calculate_hash H (b\<lparr>hash := h\<rparr>) = calculate_hash H b"
  by (rule calculate_hash_cong) simp_all

lemma calculate_hash_ignores_hash2 [simp]:
  "calculate_hash H (b\<lparr>hash := h, nonce := n\<rparr>) = calculate_hash H (b\<lparr>nonce := n\<rparr>)"
  by (rule calculate_hash_cong) simp_all

lemma attempt_step: "attempt H (attempt H b 1) j = attempt H b (Suc j)"
  by (simp add: attempt_def Let_def add.assoc)

lemma mine_block_unfold_not_sealed:
  "\<not> sealed d b \<Longrightarrow> mine_block H d b = mine_block H d (attempt H b 1)"
  by (subst mine_block.simps) (simp add: sealed_def attempt_def Let_def)

lemma mine_block_unfold_sealed: "sealed d b \<Longrightarrow> mine_block H d b = Some b"
  apply (subst mine_block.simps)
  apply (simp only: sealed_def if_False not_True_eq_False simp_thms)
  done

lemma mine_block_returns:
  "sealed d (attempt H b k) \<Longrightarrow> (\<forall>j<k. \<not> sealed d (attempt H b j))
     \<Longrightarrow> mine_block H d b = Some (attempt H b k)"
proof (induction k arbitrary: b)
  case 0
  then show ?case by (simp add: mine_block_unfold_sealed attempt_def)
next
  case (Suc k)
  from Suc.prems(2) have "\<not> sealed d (attempt H b 0)" by blast
  then have ns: "\<not> sealed d b" by (simp add: attempt_def)
  have "mine_block H d (attempt H b 1) = Some (attempt H (attempt H b 1) k)"
  proof (rule Suc.IH)
    show "sealed d (attempt H (attempt H b 1) k)"
      using Suc.prems(1) by (simp only: attempt_step)
    show "\<forall>j<k. \<not> sealed d (attempt H (attempt H b 1) j)"
      using Suc.prems(2) by (simp only: attempt_step) auto
  qed
  then have "mine_block H d (attempt H b 1) = Some (attempt H b (Suc k))"
    by (simp only: attempt_step)
  with mine_block_unfold_not_sealed[OF ns, of H] show ?case
    by simp
qed

lemma mine_block_total:
  assumes "\<exists>k. sealed d (attempt H b k)"
  shows "\<exists>k. mine_block H d b = Some (attempt H b k) \<and> sealed d (attempt H b k)"
proof -
  define k where "k = (LEAST k. sealed d (attempt H b k))"
  from assms have s: "sealed d (attempt H b k)"
    unfolding k_def by (rule LeastI_ex)
  have "\<forall>j<k. \<not> sealed d (attempt H b j)"
    unfolding k_def using not_less_Least by blast
  with s have "mine_block H d b = Some (attempt H b k)"
    by (rule mine_block_returns)
  with s show ?thesis by blast
qed

lemma mine_block_sound:
  assumes "mine_block H d b = Some b'"
  shows "\<exists>k. b' = attempt H b k \<and> sealed d b'"
proof (rule mine_block.raw_induct[where P="\<lambda>H d b b'. \<exists>k. b' = attempt H b k \<and> sealed d b'", OF _ assms])
  fix mine H d b b'
  assume IH: "\<And>H d b b'. mine H d b = Some b' \<Longrightarrow> \<exists>k. b' = attempt H b k \<and> sealed d b'"
  and eq: "(if slice_to d (hash b) \<noteq> target d
      then mine H d (let self' = b\<lparr>nonce := nonce b + 1\<rparr> in self'\<lparr>hash := calculate_hash H self'\<rparr>)
      else Some b) = Some b'"
  show "\<exists>k. b' = attempt H b k \<and> sealed d b'"
  proof (cases "sealed d b")
    case False
    with eq have m: "mine H d (attempt H b 1) = Some b'"
      by (simp add: Let_def sealed_def attempt_def)
    from IH[OF m] obtain k where "b' = attempt H (attempt H b 1) k" "sealed d b'" by blast
    then show ?thesis by (auto simp only: attempt_step)
  next
    case True
    with eq have "b' = b" by (simp add: sealed_def)
    with True have "b' = attempt H b 0 \<and> sealed d b'" by (simp add: attempt_def)
    then show ?thesis by blast
  qed
qed

lemma attempt_fields:
  "index (attempt H b k) = index b" "timestamp (attempt H b k) = timestamp b"
  "data (attempt H b k) = data b" "previous_hash (attempt H b k) = previous_hash b"
  "nonce (attempt H b k) = nonce b + int k"
  by (simp_all add: attempt_def Let_def)

lemma attempt_hash:
  "0 < k \<or> hash b = calculate_hash H b \<Longrightarrow> hash (attempt H b k) = calculate_hash H (attempt H b k)"
  by (auto simp add: attempt_def Let_def)


lemma mine_block_at:
  "sealed d (attempt H b k) \<and> list_all (\<lambda>j. \<not> sealed d (attempt H b j)) [0..<k]
     \<Longrightarrow> mine_block H d b = Some (attempt H b k)"
  by (rule mine_block_returns) (auto simp: list_all_iff)




lemma Block_fields [simp]:
  "index (Block H i ts d ph) = i" "timestamp (Block H i ts d ph) = ts"
  "data (Block H i ts d ph) = d" "previous_hash (Block H i ts d ph) = ph"
  "nonce (Block H i ts d ph) = 0"
  by (simp_all add: Block_def Let_def)

lemma Block_hash: "hash (Block H i ts d ph) = calculate_hash H (Block H i ts d ph)"
  by (auto simp: Block_def Let_def intro: calculate_hash_cong)

lemma mine_block_None_iff:
  "mine_block H d b = None \<longleftrightarrow> (\<forall>k. \<not> sealed d (attempt H b k))"
proof
  assume "mine_block H d b = None"
  with mine_block_total[of d H b] show "\<forall>k. \<not> sealed d (attempt H b k)" by auto
next
  assume n: "\<forall>k. \<not> sealed d (attempt H b k)"
  show "mine_block H d b = None"
  proof (cases "mine_block H d b")
    case (Some b')
    from mine_block_sound[OF Some] n show ?thesis by blast
  qed simp
qed


section \<open>The example ledger, computed\<close>

lemma toy_genesis: "DocumentBlockchain toy_sha 2 ''2024-01-01T00:00:00'' = Some ledger0"
proof -
  have "mine_block toy_sha 2 (Block toy_sha 0 ''2024-01-01T00:00:00'' genesis_data ''0'')
        = Some (attempt toy_sha (Block toy_sha 0 ''2024-01-01T00:00:00'' genesis_data ''0'') 3)"
    by (rule mine_block_at) code_simp
  moreover have "attempt toy_sha (Block toy_sha 0 ''2024-01-01T00:00:00'' genesis_data ''0'') 3 = block0"
    by code_simp
  ultimately show ?thesis
    by (simp add: DocumentBlockchain_def create_genesis_block_def genesis_data_def ledger0_def)
qed

lemma toy_mine1:
  "mine_block toy_sha 2 (Block toy_sha 1 ''2024-01-05'' diploma ''00dc'') = Some block1"
proof -
  have "mine_block toy_sha 2 (Block toy_sha 1 ''2024-01-05'' diploma ''00dc'')
        = Some (attempt toy_sha (Block toy_sha 1 ''2024-01-05'' diploma ''00dc'') 3)"
    by (rule mine_block_at) code_simp
  moreover have "attempt toy_sha (Block toy_sha 1 ''2024-01-05'' diploma ''00dc'') 3 = block1"
    by code_simp
  ultimately show ?thesis
    by simp
qed

lemma toy_append:
  "add_document toy_sha ledger0 ''2024-01-05'' diploma =
     Some (Inr (ledger1, [(''success'', JBool True), (''block_number'', JInt 1),
                 (''block_hash'', JStr ''0064''), (''timestamp'', JStr ''2024-01-05'')]))"
  using toy_mine1
  by (simp add: add_document_def get_latest_block_def ledger0_def ledger1_def block0_def block1_def)

section \<open>Sealing\<close>







section \<open>Appending a document\<close>

lemma add_document_nonempty:
  assumes "chain L \<noteq> []"
  shows "add_document H L now p =
     (case mine_block H (difficulty L) (Block H (int (length (chain L))) now p (hash (last (chain L)))) of
        None \<Rightarrow> None
      | Some nb \<Rightarrow> Some (Inr (L\<lparr>chain := chain L @ [nb]\<rparr>,
           [(''success'', JBool True), (''block_number'', JInt (index nb)),
            (''block_hash'', JStr (hash nb)), (''timestamp'', JStr (timestamp nb))])))"
  using assms by (simp add: add_document_def get_latest_block_def)


lemma add_document_returns_iff:
  assumes "chain L \<noteq> []"
  shows "add_document H L now p \<noteq> None \<longleftrightarrow>
           (\<exists>k. sealed (difficulty L)
              (attempt H (Block H (int (length (chain L))) now p (hash (last (chain L)))) k))"
  using mine_block_None_iff[of H "difficulty L"
      "Block H (int (length (chain L))) now p (hash (last (chain L)))"]
  by (auto simp: add_document_nonempty[OF assms] split: option.splits)

lemma add_document_Some:
  assumes "chain L \<noteq> []" and "add_document H L now p = Some r"
  shows "\<exists>nb. r = Inr (L\<lparr>chain := chain L @ [nb]\<rparr>,
                      [(''success'', JBool True), (''block_number'', JInt (index nb)),
                       (''block_hash'', JStr (hash nb)), (''timestamp'', JStr (timestamp nb))])
           \<and> index nb = int (length (chain L)) \<and> timestamp nb = now \<and> data nb = p
           \<and> previous_hash nb = hash (last (chain L))
           \<and> sealed (difficulty L) nb \<and> hash nb = calculate_hash H nb"
proof -
  let ?b = "Block H (int (length (chain L))) now p (hash (last (chain L)))"
  from assms(2) obtain nb where m: "mine_block H (difficulty L) ?b = Some nb"
    and r: "r = Inr (L\<lparr>chain := chain L @ [nb]\<rparr>,
                     [(''success'', JBool True), (''block_number'', JInt (index nb)),
                      (''block_hash'', JStr (hash nb)), (''timestamp'', JStr (timestamp nb))])"
    by (auto simp: add_document_nonempty[OF assms(1)] split: option.splits)
  from mine_block_sound[OF m] obtain k where k: "nb = attempt H ?b k"
    and s: "sealed (difficulty L) nb"
    by blast
  have "hash nb = calculate_hash H nb"
    unfolding k by (rule attempt_hash) (simp add: Block_hash)
  with r s show ?thesis
    by (auto simp: k attempt_fields)
qed

text \<open>
  C6. On a ledger with a non-empty chain, \<open>add_document\<close> returns exactly when some nonce
  seals the new block at the ledger's difficulty; when it returns, it has appended one
  block, whose index is the length of the chain before the call, whose timestamp is the
  clock's, whose payload is the argument, whose previous digest is the digest of the last
  block before the call, and which is sealed at the ledger's difficulty; the dictionary
  returned carries that block's index, digest and timestamp.
\<close>

theorem add_document_appends:
  assumes "chain L \<noteq> []"
  shows "(add_document H L now p \<noteq> None \<longleftrightarrow>
            (\<exists>k. sealed (difficulty L)
               (attempt H (Block H (int (length (chain L))) now p (hash (last (chain L)))) k)))
    \<and> (\<forall>r. add_document H L now p = Some r \<longrightarrow>
          (\<exists>nb. r = Inr (L\<lparr>chain := chain L @ [nb]\<rparr>,
                          [(''success'', JBool True), (''block_number'', JInt (index nb)),
                           (''block_hash'', JStr (hash nb)), (''timestamp'', JStr (timestamp nb))])
             \<and> index nb = int (length (chain L)) \<and> timestamp nb = now \<and> data nb = p
             \<and> previous_hash nb = hash (last (chain L))
             \<and> sealed (difficulty L) nb \<and> hash nb = calculate_hash H nb))"
  using add_document_returns_iff[OF assms] add_document_Some[OF assms]
  by blast

theorem add_document_appends_witness:
  "chain ledger0 \<noteq> []
   \<and> add_document toy_sha ledger0 ''2024-01-05'' diploma \<noteq> None
   \<and> (\<exists>nb. add_document toy_sha ledger0 ''2024-01-05'' diploma =
          Some (Inr (ledger0\<lparr>chain := chain ledger0 @ [nb]\<rparr>,
                     [(''success'', JBool True), (''block_number'', JInt (index nb)),
                      (''block_hash'', JStr (hash nb)), (''timestamp'', JStr (timestamp nb))]))
        \<and> index nb = 1 \<and> timestamp nb = ''2024-01-05'' \<and> data nb = diploma
        \<and> previous_hash nb = hash block0 \<and> sealed 2 nb \<and> hash nb = calculate_hash toy_sha nb)"
proof -
  have ne: "chain ledger0 \<noteq> []"
    by (simp add: ledger0_def)
  from add_document_appends[OF ne, of toy_sha "''2024-01-05''" diploma] toy_append ne
  show ?thesis
    by (auto simp: ledger0_def)
qed

section \<open>Validation of the chain\<close>

lemma is_chain_valid_iff:
  "is_chain_valid H L \<longleftrightarrow>
     (\<forall>i. 1 \<le> i \<and> i < length (chain L) \<longrightarrow>
        hash (chain L ! i) = calculate_hash H (chain L ! i)
        \<and> previous_hash (chain L ! i) = hash (chain L ! (i - 1)))"
  by (simp add: is_chain_valid_def is_chain_valid_from_iff)

text \<open>
  C1. \<open>is_chain_valid\<close> returns true exactly when every block at a position \<open>i \<ge> 1\<close>
  carries the digest recomputed from its index, timestamp, payload, previous digest and
  nonce (I1) and its previous digest is the digest of the block at \<open>i - 1\<close> (I2). The
  zero prefix (I3) plays no part: the result is the same under any difficulty of the
  ledger. The first block's own digest is never checked against its fields: replacing
  the first block by any block with the same stored digest leaves the result unchanged.
\<close>

theorem is_chain_valid_spec:
  "(is_chain_valid H L \<longleftrightarrow>
     (\<forall>i. 1 \<le> i \<and> i < length (chain L) \<longrightarrow>
        hash (chain L ! i) = calculate_hash H (chain L ! i)
        \<and> previous_hash (chain L ! i) = hash (chain L ! (i - 1))))
   \<and> is_chain_valid H (L\<lparr>difficulty := d\<rparr>) = is_chain_valid H L
   \<and> (hash g' = hash g \<longrightarrow>
        is_chain_valid H (L\<lparr>chain := g' # bs\<rparr>) = is_chain_valid H (L\<lparr>chain := g # bs\<rparr>))"
proof (intro conjI impI)
  show "is_chain_valid H L \<longleftrightarrow>
     (\<forall>i. 1 \<le> i \<and> i < length (chain L) \<longrightarrow>
        hash (chain L ! i) = calculate_hash H (chain L ! i)
        \<and> previous_hash (chain L ! i) = hash (chain L ! (i - 1)))"
    by (rule is_chain_valid_iff)
  show "is_chain_valid H (L\<lparr>difficulty := d\<rparr>) = is_chain_valid H L"
    by (simp add: is_chain_valid_def)
next
  assume h: "hash g' = hash g"
  have "(g' # bs) ! i = (g # bs) ! i" if "1 \<le> i" for i
    using that by (cases i) simp_all
  moreover have "hash ((g' # bs) ! (i - 1)) = hash ((g # bs) ! (i - 1))" if "1 \<le> i" for i
    using that h by (cases "i - 1") simp_all
  ultimately show "is_chain_valid H (L\<lparr>chain := g' # bs\<rparr>) = is_chain_valid H (L\<lparr>chain := g # bs\<rparr>)"
    by (simp add: is_chain_valid_iff)
qed

theorem is_chain_valid_spec_witness:
  "is_chain_valid toy_sha ledger_unsealed
   \<and> \<not> sealed (difficulty ledger_unsealed) (chain ledger_unsealed ! 1)
   \<and> hash (chain ledger_unsealed ! 0) \<noteq> calculate_hash toy_sha (chain ledger_unsealed ! 0)
   \<and> is_chain_valid toy_sha (ledger_unsealed\<lparr>chain := block0 # [unsealed1]\<rparr>) = False"
proof -
  have c: "chain ledger_unsealed = [forged0, unsealed1]"
    by (simp add: ledger_unsealed_def)
  have h1: "hash unsealed1 = calculate_hash toy_sha unsealed1"
    by code_simp
  have p1: "previous_hash unsealed1 = hash forged0"
    by code_simp
  have "hash (chain ledger_unsealed ! i) = calculate_hash toy_sha (chain ledger_unsealed ! i)
        \<and> previous_hash (chain ledger_unsealed ! i) = hash (chain ledger_unsealed ! (i - 1))"
    if "1 \<le> i \<and> i < length (chain ledger_unsealed)" for i
  proof -
    from that have "i = 1" by (simp add: c)
    with h1 p1 show ?thesis by (simp add: c)
  qed
  with is_chain_valid_spec[of toy_sha ledger_unsealed] have v: "is_chain_valid toy_sha ledger_unsealed"
    by blast
  have s: "\<not> sealed (difficulty ledger_unsealed) (chain ledger_unsealed ! 1)"
    by code_simp
  have g: "hash (chain ledger_unsealed ! 0) \<noteq> calculate_hash toy_sha (chain ledger_unsealed ! 0)"
    by code_simp
  have "previous_hash unsealed1 \<noteq> hash block0"
    by code_simp
  then have "\<not> (\<forall>i. 1 \<le> i \<and> i < length [block0, unsealed1] \<longrightarrow>
        hash ([block0, unsealed1] ! i) = calculate_hash toy_sha ([block0, unsealed1] ! i)
        \<and> previous_hash ([block0, unsealed1] ! i) = hash ([block0, unsealed1] ! (i - 1)))"
    by (auto intro!: exI[of _ 1])
  with is_chain_valid_spec[of toy_sha "ledger_unsealed\<lparr>chain := [block0, unsealed1]\<rparr>"]
  have "\<not> is_chain_valid toy_sha (ledger_unsealed\<lparr>chain := [block0, unsealed1]\<rparr>)"
    by simp
  with v s g show ?thesis
    by simp
qed

section \<open>Every ledger the program builds is valid\<close>

lemma built_chain_nonempty: "built H L \<Longrightarrow> chain L \<noteq> []"
proof (induction rule: built.induct)
  case (fresh d now L)
  then show ?case
    by (auto simp: DocumentBlockchain_def create_genesis_block_def split: option.splits)
next
  case (appended L now p L' r)
  from add_document_Some[OF appended.IH appended.hyps(2)]
  show ?case by auto
qed

lemma is_chain_valid_append:
  assumes "is_chain_valid H L" and "chain L \<noteq> []"
    and "hash nb = calculate_hash H nb" and "previous_hash nb = hash (last (chain L))"
  shows "is_chain_valid H (L\<lparr>chain := chain L @ [nb]\<rparr>)"
  unfolding is_chain_valid_iff
proof (intro allI impI)
  fix i
  assume i: "1 \<le> i \<and> i < length (chain (L\<lparr>chain := chain L @ [nb]\<rparr>))"
  show "hash (chain (L\<lparr>chain := chain L @ [nb]\<rparr>) ! i) = calculate_hash H (chain (L\<lparr>chain := chain L @ [nb]\<rparr>) ! i)
        \<and> previous_hash (chain (L\<lparr>chain := chain L @ [nb]\<rparr>) ! i) = hash (chain (L\<lparr>chain := chain L @ [nb]\<rparr>) ! (i - 1))"
  proof (cases "i < length (chain L)")
    case True
    then have "i - 1 < length (chain L)"
      by simp
    with True i assms(1) show ?thesis
      by (simp add: is_chain_valid_iff nth_append)
  next
    case False
    with i have e: "i = length (chain L)" by simp
    with assms(2) have "(chain L @ [nb]) ! (i - 1) = last (chain L)"
      by (simp add: nth_append last_conv_nth)
    with e assms(3,4) show ?thesis
      by simp
  qed
qed

lemma built_valid: "built H L \<Longrightarrow> is_chain_valid H L"
proof (induction rule: built.induct)
  case (fresh d now L)
  then have "length (chain L) = 1"
    by (auto simp: DocumentBlockchain_def create_genesis_block_def split: option.splits)
  then show ?case
    by (simp add: is_chain_valid_iff)
next
  case (appended L now p L' r)
  have ne: "chain L \<noteq> []"
    using appended.hyps(1) by (rule built_chain_nonempty)
  from add_document_Some[OF ne appended.hyps(2)]
  obtain nb where "L' = L\<lparr>chain := chain L @ [nb]\<rparr>" "previous_hash nb = hash (last (chain L))"
    "hash nb = calculate_hash H nb"
    by auto
  with appended.IH ne show ?case
    by (simp add: is_chain_valid_append)
qed

text \<open>
  C4. A ledger constructed fresh and extended by any number of calls of \<open>add_document\<close>
  is valid after the construction and after every call: \<open>built\<close> holds of exactly these
  ledgers, at each of these moments.
\<close>

theorem built_is_chain_valid: "built H L \<Longrightarrow> is_chain_valid H L"
  by (rule built_valid)

lemma built_ledger0: "built toy_sha ledger0"
  by (rule built.fresh) (rule toy_genesis)

lemma built_ledger1: "built toy_sha ledger1"
  by (rule built.appended[OF built_ledger0 toy_append])

theorem built_is_chain_valid_witness:
  "built toy_sha ledger0 \<and> is_chain_valid toy_sha ledger0
   \<and> built toy_sha ledger1 \<and> is_chain_valid toy_sha ledger1"
  using built_is_chain_valid[OF built_ledger0] built_is_chain_valid[OF built_ledger1]
    built_ledger0 built_ledger1
  by blast

section \<open>Looking a document up\<close>

lemma verify_document_loop_None:
  "verify_document_loop bs h = None \<longleftrightarrow> (\<forall>k<length bs. \<not> matches h (bs ! k))"
proof (induction bs)
  case Nil
  then show ?case by simp
next
  case (Cons b bs)
  show ?case
  proof (cases "matches h b")
    case True
    then have "verify_document_loop (b # bs) h \<noteq> None"
      by (simp add: matches_def)
    moreover from True have "\<not> (\<forall>k<length (b # bs). \<not> matches h ((b # bs) ! k))"
      by (auto intro!: exI[of _ 0])
    ultimately show ?thesis by blast
  next
    case False
    then have "verify_document_loop (b # bs) h = verify_document_loop bs h"
      by (simp add: matches_def)
    moreover from False have "(\<forall>k<length (b # bs). \<not> matches h ((b # bs) ! k))
        \<longleftrightarrow> (\<forall>k<length bs. \<not> matches h (bs ! k))"
      by (auto simp: nth_Cons split: nat.splits)
    ultimately show ?thesis using Cons.IH by simp
  qed
qed

lemma verify_document_loop_Some:
  "verify_document_loop bs h = Some r \<Longrightarrow>
     \<exists>k<length bs. matches h (bs ! k) \<and> (\<forall>j<k. \<not> matches h (bs ! j)) \<and> r = found (bs ! k)"
proof (induction bs)
  case Nil
  then show ?case by simp
next
  case (Cons b bs)
  show ?case
  proof (cases "matches h b")
    case True
    with Cons.prems have "r = found b"
      by (simp add: matches_def found_def)
    with True have "0 < length (b # bs) \<and> matches h ((b # bs) ! 0)
        \<and> (\<forall>j<0. \<not> matches h ((b # bs) ! j)) \<and> r = found ((b # bs) ! 0)"
      by simp
    then show ?thesis by blast
  next
    case False
    with Cons.prems have "verify_document_loop bs h = Some r"
      by (simp add: matches_def)
    from Cons.IH[OF this] obtain k where k: "k < length bs" "matches h (bs ! k)"
      "\<forall>j<k. \<not> matches h (bs ! j)" "r = found (bs ! k)"
      by blast
    have "\<forall>j<Suc k. \<not> matches h ((b # bs) ! j)"
      using False k(3) by (auto simp: nth_Cons split: nat.splits)
    with k have "Suc k < length (b # bs) \<and> matches h ((b # bs) ! Suc k)
        \<and> (\<forall>j<Suc k. \<not> matches h ((b # bs) ! j)) \<and> r = found ((b # bs) ! Suc k)"
      by simp
    then show ?thesis by blast
  qed
qed

text \<open>
  C9. \<open>verify_document\<close> scans the chain from position 1 on, in order. It returns
  \<open>None\<close> exactly when no block at a position \<open>i \<ge> 1\<close> stores the hash under
  \<open>document_hash\<close>; otherwise it returns, for the first such position, the dictionary with
  that block's index, timestamp and whole payload. The first block is never looked at:
  the result is the same whatever block stands at position 0. The function returns a
  value on every ledger, the empty one included, and returns no ledger: it assigns to
  nothing.
\<close>

theorem verify_document_spec:
  "(verify_document L h = None \<longleftrightarrow>
      (\<forall>i. 1 \<le> i \<and> i < length (chain L) \<longrightarrow> \<not> matches h (chain L ! i)))
   \<and> (\<forall>r. verify_document L h = Some r \<longrightarrow>
         (\<exists>i. 1 \<le> i \<and> i < length (chain L) \<and> matches h (chain L ! i)
            \<and> (\<forall>j. 1 \<le> j \<and> j < i \<longrightarrow> \<not> matches h (chain L ! j))
            \<and> r = [(''valid'', JBool True), (''block_number'', JInt (index (chain L ! i))),
                    (''timestamp'', JStr (timestamp (chain L ! i))),
                    (''data'', JObj (data (chain L ! i)))]))
   \<and> verify_document (L\<lparr>chain := g' # bs\<rparr>) h = verify_document (L\<lparr>chain := g # bs\<rparr>) h
   \<and> verify_document (L\<lparr>chain := []\<rparr>) h = None"
proof (intro conjI allI impI)
  have nth: "drop 1 (chain L) ! k = chain L ! Suc k" if "k < length (drop 1 (chain L))" for k
    using that by simp
  have "(\<forall>k<length (drop 1 (chain L)). \<not> matches h (drop 1 (chain L) ! k))
        \<longleftrightarrow> (\<forall>i. 1 \<le> i \<and> i < length (chain L) \<longrightarrow> \<not> matches h (chain L ! i))"
  proof
    assume a: "\<forall>k<length (drop 1 (chain L)). \<not> matches h (drop 1 (chain L) ! k)"
    show "\<forall>i. 1 \<le> i \<and> i < length (chain L) \<longrightarrow> \<not> matches h (chain L ! i)"
    proof (intro allI impI)
      fix i assume i: "1 \<le> i \<and> i < length (chain L)"
      then have "i - 1 < length (drop 1 (chain L))" by auto
      with a have "\<not> matches h (drop 1 (chain L) ! (i - 1))" by blast
      with i show "\<not> matches h (chain L ! i)" by simp
    qed
  next
    assume a: "\<forall>i. 1 \<le> i \<and> i < length (chain L) \<longrightarrow> \<not> matches h (chain L ! i)"
    show "\<forall>k<length (drop 1 (chain L)). \<not> matches h (drop 1 (chain L) ! k)"
    proof (intro allI impI)
      fix k assume k: "k < length (drop 1 (chain L))"
      then have "1 \<le> Suc k \<and> Suc k < length (chain L)" by auto
      with a have "\<not> matches h (chain L ! Suc k)" by blast
      with k show "\<not> matches h (drop 1 (chain L) ! k)" by simp
    qed
  qed
  then show "verify_document L h = None \<longleftrightarrow>
      (\<forall>i. 1 \<le> i \<and> i < length (chain L) \<longrightarrow> \<not> matches h (chain L ! i))"
    by (simp only: verify_document_def verify_document_loop_None)
next
  fix r
  assume "verify_document L h = Some r"
  then have "verify_document_loop (drop 1 (chain L)) h = Some r"
    by (simp add: verify_document_def)
  from verify_document_loop_Some[OF this] obtain k where k: "k < length (drop 1 (chain L))"
    "matches h (drop 1 (chain L) ! k)" "\<forall>j<k. \<not> matches h (drop 1 (chain L) ! j)"
    "r = found (drop 1 (chain L) ! k)"
    by blast
  have "\<not> matches h (chain L ! j)" if "1 \<le> j \<and> j < Suc k" for j
  proof -
    from that have "j - 1 < k" by auto
    with k(3) have "\<not> matches h (drop 1 (chain L) ! (j - 1))" by blast
    with that k(1) show ?thesis by simp
  qed
  with k have "1 \<le> Suc k \<and> Suc k < length (chain L) \<and> matches h (chain L ! Suc k)
            \<and> (\<forall>j. 1 \<le> j \<and> j < Suc k \<longrightarrow> \<not> matches h (chain L ! j))
            \<and> r = [(''valid'', JBool True), (''block_number'', JInt (index (chain L ! Suc k))),
                    (''timestamp'', JStr (timestamp (chain L ! Suc k))),
                    (''data'', JObj (data (chain L ! Suc k)))]"
    by (auto simp: found_def)
  then show "\<exists>i. 1 \<le> i \<and> i < length (chain L) \<and> matches h (chain L ! i)
            \<and> (\<forall>j. 1 \<le> j \<and> j < i \<longrightarrow> \<not> matches h (chain L ! j))
            \<and> r = [(''valid'', JBool True), (''block_number'', JInt (index (chain L ! i))),
                    (''timestamp'', JStr (timestamp (chain L ! i))),
                    (''data'', JObj (data (chain L ! i)))]"
    by blast
next
  show "verify_document (L\<lparr>chain := g' # bs\<rparr>) h = verify_document (L\<lparr>chain := g # bs\<rparr>) h"
    by (simp add: verify_document_def)
  show "verify_document (L\<lparr>chain := []\<rparr>) h = None"
    by (simp add: verify_document_def)
qed

theorem verify_document_spec_witness:
  "verify_document ledger1 ''deadbeef'' =
      Some [(''valid'', JBool True), (''block_number'', JInt 1),
            (''timestamp'', JStr ''2024-01-05''), (''data'', JObj diploma)]
   \<and> (\<exists>i. 1 \<le> i \<and> i < length (chain ledger1) \<and> matches ''deadbeef'' (chain ledger1 ! i))
   \<and> verify_document ledger1 ''abc'' = None
   \<and> \<not> matches ''abc'' (chain ledger1 ! 1)"
proof -
  have v: "verify_document ledger1 ''deadbeef'' =
      Some [(''valid'', JBool True), (''block_number'', JInt 1),
            (''timestamp'', JStr ''2024-01-05''), (''data'', JObj diploma)]"
    by code_simp
  have n: "verify_document ledger1 ''abc'' = None"
    by code_simp
  have l: "1 \<le> (1::nat) \<and> 1 < length (chain ledger1)"
    by (simp add: ledger1_def)
  from verify_document_spec[of ledger1 "''deadbeef''"] v
  have "\<exists>i. 1 \<le> i \<and> i < length (chain ledger1) \<and> matches ''deadbeef'' (chain ledger1 ! i)"
    by blast
  moreover from verify_document_spec[of ledger1 "''abc''"] n l
  have "\<not> matches ''abc'' (chain ledger1 ! 1)"
    by blast
  ultimately show ?thesis
    using v n by blast
qed

section \<open>Saving and loading\<close>

lemma as_int_Some: "as_int v = Some i \<longleftrightarrow> v = JInt i"
  by (cases v) auto

lemma as_str_Some: "as_str v = Some x \<longleftrightarrow> v = JStr x"
  by (cases v) auto

lemma as_dict_Some: "as_dict v = Some d \<longleftrightarrow> v = JObj d"
  by (cases v) auto

lemma as_block_as_object [simp]: "as_block (as_object b) = Some b"
  by (simp add: as_block_def as_object_def)

lemma as_block_Some: "as_block ob = Some b \<longleftrightarrow> ob = as_object b"
  by (cases ob)
     (auto simp: as_block_def as_object_def as_int_Some as_str_Some as_dict_Some
       split: option.splits)

lemma those_as_block [simp]: "those (map as_block (map as_object bs)) = Some bs"
  by (induction bs) simp_all

lemma those_as_block_comp [simp]: "those (map (as_block \<circ> as_object) bs) = Some bs"
  by (induction bs) simp_all

lemma as_blockchain_as_objects [simp]: "as_blockchain (as_objects L) = Some L"
  by (simp add: as_blockchain_def as_objects_def)

lemma calculate_hash_object_as_object:
  "calculate_hash_object H (as_object b) = calculate_hash H b"
  by (simp add: calculate_hash_object_def calculate_hash_def as_object_def del: dumps.simps)

lemma block_of_record_Inr_iff:
  "block_of_record H (JObj kvs) = Inr ob \<longleftrightarrow>
     map_of kvs ''index'' = Some (index_v ob)
     \<and> map_of kvs ''timestamp'' = Some (timestamp_v ob)
     \<and> map_of kvs ''data'' = Some (data_v ob)
     \<and> map_of kvs ''previous_hash'' = Some (previous_hash_v ob)
     \<and> map_of kvs ''nonce'' = Some (nonce_v ob)
     \<and> map_of kvs ''hash'' = Some (hash_v ob)"
  by (cases ob) (auto simp: block_of_record_def Block_object_def Let_def split: option.splits)

lemma block_of_record_to_dict: "block_of_record H (to_dict b) = Inr (as_object b)"
  by (simp add: to_dict_def block_of_record_Inr_iff as_object_def)

lemma block_of_record_KeyError:
  "find (\<lambda>k. map_of kvs k = None) required_fields = Some k
     \<Longrightarrow> block_of_record H (JObj kvs) = Inl (KeyError k)"
  by (auto simp: required_fields_def block_of_record_def Let_def split: if_splits option.splits)

lemma block_of_record_TypeError:
  "\<forall>d. block_data \<noteq> JObj d \<Longrightarrow> block_of_record H block_data = Inl TypeError"
  by (cases block_data) (simp_all add: block_of_record_def)

lemma block_of_record_Inl:
  "block_of_record H block_data = Inl e \<Longrightarrow>
     (e = TypeError \<and> (\<forall>d. block_data \<noteq> JObj d))
     \<or> (\<exists>kvs k. block_data = JObj kvs \<and> e = KeyError k
           \<and> find (\<lambda>k. map_of kvs k = None) required_fields = Some k)"
  by (cases block_data)
     (auto simp: required_fields_def block_of_record_def Let_def split: if_splits option.splits)

lemma load_loop_to_dict:
  "load_loop H acc (map to_dict bs) = (acc @ map as_object bs, None)"
  by (induction bs arbitrary: acc) (simp_all add: block_of_record_to_dict)

lemma load_after_save:
  "load_from_file H self filename (save_to_file L filename fs)
     = (self\<lparr>chain_v := map as_object (chain L)\<rparr>, Inr True)"
  by (simp add: load_from_file_def save_to_file_def load_loop_to_dict)

lemma load_loop_all:
  "\<forall>r\<in>set records. \<exists>b. block_of_record H r = Inr b
     \<Longrightarrow> load_loop H acc records = (acc @ map (projr \<circ> block_of_record H) records, None)"
  by (induction records arbitrary: acc) auto

lemma load_loop_first_error:
  "\<forall>x\<in>set pre. \<exists>b. block_of_record H x = Inr b \<Longrightarrow> block_of_record H r = Inl e
     \<Longrightarrow> load_loop H acc (pre @ r # post) = (acc @ map (projr \<circ> block_of_record H) pre, Some e)"
  by (induction pre arbitrary: acc) auto


lemma chain_v_as_objects [simp]: "chain_v (as_objects L) = map as_object (chain L)"
  by (simp add: as_objects_def)

lemma as_objects_chain:
  "(as_objects self)\<lparr>chain_v := map as_object c\<rparr> = as_objects (self\<lparr>chain := c\<rparr>)"
  by (simp add: as_objects_def)

text \<open>
  C2. For a ledger the program has built, \<open>save_to_file\<close> followed by \<open>load_from_file\<close>
  (into any ledger of the data model, and whatever hash function the constructor of
  \<open>Block\<close> uses during the load) returns \<open>True\<close> and leaves the very chain that was saved:
  every block with its index, timestamp, payload, previous digest, nonce and digest. The
  digest the constructor computes during the load is overwritten by the stored one, and
  the load never enters the mining loop: \<open>load_from_file\<close> is a total function that does
  not depend on the difficulty. The reloaded ledger passes \<open>is_chain_valid\<close>.
\<close>

theorem save_load_roundtrip:
  assumes "built H L"
  shows "load_from_file H' (as_objects self) filename (save_to_file L filename fs)
           = (as_objects (self\<lparr>chain := chain L\<rparr>), Inr True)
    \<and> as_blockchain (fst (load_from_file H' (as_objects self) filename
           (save_to_file L filename fs))) = Some (self\<lparr>chain := chain L\<rparr>)
    \<and> is_chain_valid H (self\<lparr>chain := chain L\<rparr>)"
proof -
  have "is_chain_valid H (self\<lparr>chain := chain L\<rparr>)"
    using built_valid[OF assms] by (simp add: is_chain_valid_def)
  then show ?thesis
    by (simp add: load_after_save as_objects_chain)
qed

theorem save_load_roundtrip_witness:
  "built toy_sha ledger1
   \<and> load_from_file (\<lambda>s. []) (as_objects ledger0) ''blockchain_data.json''
        (save_to_file ledger1 ''blockchain_data.json'' Map.empty) = (as_objects ledger1, Inr True)
   \<and> as_blockchain (fst (load_from_file (\<lambda>s. []) (as_objects ledger0) ''blockchain_data.json''
        (save_to_file ledger1 ''blockchain_data.json'' Map.empty))) = Some ledger1
   \<and> is_chain_valid toy_sha ledger1"
proof -
  have e: "ledger0\<lparr>chain := chain ledger1\<rparr> = ledger1"
    by (simp add: ledger0_def ledger1_def)
  from save_load_roundtrip[OF built_ledger1, of "\<lambda>s. []" ledger0
      "''blockchain_data.json''" Map.empty]
  show ?thesis
    unfolding e using built_ledger1 by blast
qed

text \<open>
  C5, as the code has it. A missing file makes \<open>load_from_file\<close> return \<open>False\<close>; a file
  that is no text raises \<open>UnicodeDecodeError\<close> and a file that is no JSON raises
  \<open>JSONDecodeError\<close>; all three leave the ledger untouched. On a list of records, the
  load returns \<open>True\<close> with one block per record, in order and none skipped, when every
  record yields a block; otherwise the exception raised by the first record that yields
  none leaves the method. A record yields a block exactly when it is an object that has
  the six keys, and the block then carries the six values as stored, whatever they are:
  neither their types, nor the characters of the digest, nor the order of the indices
  are looked at. A record that is an object and lacks one of the six keys raises
  \<open>KeyError\<close> for the first one missing; a record that is no object raises \<open>TypeError\<close>;
  a record raises nothing else.
\<close>

theorem load_from_file_outcome:
  "(fs filename = None \<longrightarrow> load_from_file H self filename fs = (self, Inr False))
   \<and> (fs filename = Some Undecodable \<longrightarrow>
         load_from_file H self filename fs = (self, Inl UnicodeDecodeError))
   \<and> (fs filename = Some Garbled \<longrightarrow>
         load_from_file H self filename fs = (self, Inl JSONDecodeError))
   \<and> (fs filename = Some (Document (JList records)) \<longrightarrow>
         ((\<forall>r\<in>set records. \<exists>b. block_of_record H r = Inr b) \<longrightarrow>
            load_from_file H self filename fs
              = (self\<lparr>chain_v := map (projr \<circ> block_of_record H) records\<rparr>, Inr True))
         \<and> (\<forall>pre r post e.
               records = pre @ r # post \<and> (\<forall>x\<in>set pre. \<exists>b. block_of_record H x = Inr b)
               \<and> block_of_record H r = Inl e
               \<longrightarrow> snd (load_from_file H self filename fs) = Inl e))
   \<and> (block_of_record H (JObj kvs) = Inr ob \<longleftrightarrow>
         map_of kvs ''index'' = Some (index_v ob)
         \<and> map_of kvs ''timestamp'' = Some (timestamp_v ob)
         \<and> map_of kvs ''data'' = Some (data_v ob)
         \<and> map_of kvs ''previous_hash'' = Some (previous_hash_v ob)
         \<and> map_of kvs ''nonce'' = Some (nonce_v ob)
         \<and> map_of kvs ''hash'' = Some (hash_v ob))
   \<and> (find (\<lambda>k. map_of kvs k = None) required_fields = Some k \<longrightarrow>
         block_of_record H (JObj kvs) = Inl (KeyError k))
   \<and> ((\<forall>d. r' \<noteq> JObj d) \<longrightarrow> block_of_record H r' = Inl TypeError)
   \<and> (block_of_record H r' = Inl e' \<longrightarrow>
         (e' = TypeError \<and> (\<forall>d. r' \<noteq> JObj d))
         \<or> (\<exists>d k. r' = JObj d \<and> e' = KeyError k
               \<and> find (\<lambda>k. map_of d k = None) required_fields = Some k))"
proof (intro conjI impI allI)
  show "load_from_file H self filename fs = (self, Inr False)" if "fs filename = None"
    using that by (simp add: load_from_file_def)
  show "load_from_file H self filename fs = (self, Inl UnicodeDecodeError)"
    if "fs filename = Some Undecodable"
    using that by (simp add: load_from_file_def)
  show "load_from_file H self filename fs = (self, Inl JSONDecodeError)"
    if "fs filename = Some Garbled"
    using that by (simp add: load_from_file_def)
  show "load_from_file H self filename fs
          = (self\<lparr>chain_v := map (projr \<circ> block_of_record H) records\<rparr>, Inr True)"
    if "fs filename = Some (Document (JList records))"
      and "\<forall>r\<in>set records. \<exists>b. block_of_record H r = Inr b"
    using that by (simp add: load_from_file_def load_loop_all)
  show "snd (load_from_file H self filename fs) = Inl e"
    if "fs filename = Some (Document (JList records))"
      and "records = pre @ r # post \<and> (\<forall>x\<in>set pre. \<exists>b. block_of_record H x = Inr b)
           \<and> block_of_record H r = Inl e"
    for pre r post e
    using that by (simp add: load_from_file_def load_loop_first_error)
  show "block_of_record H (JObj kvs) = Inr ob \<longleftrightarrow>
         map_of kvs ''index'' = Some (index_v ob)
         \<and> map_of kvs ''timestamp'' = Some (timestamp_v ob)
         \<and> map_of kvs ''data'' = Some (data_v ob)
         \<and> map_of kvs ''previous_hash'' = Some (previous_hash_v ob)
         \<and> map_of kvs ''nonce'' = Some (nonce_v ob)
         \<and> map_of kvs ''hash'' = Some (hash_v ob)"
    by (rule block_of_record_Inr_iff)
  show "block_of_record H (JObj kvs) = Inl (KeyError k)"
    if "find (\<lambda>k. map_of kvs k = None) required_fields = Some k"
    using that by (rule block_of_record_KeyError)
  show "block_of_record H r' = Inl TypeError" if "\<forall>d. r' \<noteq> JObj d"
    using that by (rule block_of_record_TypeError)
  show "(e' = TypeError \<and> (\<forall>d. r' \<noteq> JObj d))
         \<or> (\<exists>d k. r' = JObj d \<and> e' = KeyError k
               \<and> find (\<lambda>k. map_of d k = None) required_fields = Some k)"
    if "block_of_record H r' = Inl e'"
    using that by (rule block_of_record_Inl)
qed

lemma block_of_record_tampered:
  "block_of_record H (JObj [(''index'', JInt (- 4)), (''timestamp'', JStr ''2024-01-05''),
                  (''data'', JObj diploma), (''previous_hash'', JStr ''00dc''),
                  (''nonce'', JInt 3), (''hash'', JStr ''not hex!'')])
    = Inr (as_object \<lparr>index = - 4, timestamp = ''2024-01-05'', data = diploma,
             previous_hash = ''00dc'', nonce = 3, hash = ''not hex!''\<rparr>)"
  by (simp add: block_of_record_Inr_iff as_object_def)

lemma block_of_record_truncated:
  "block_of_record H (JObj [(''index'', JInt 1), (''timestamp'', JStr ''2024-01-05''),
                  (''data'', JObj diploma), (''previous_hash'', JStr ''00dc''),
                  (''hash'', JStr ''0064'')])
    = Inl (KeyError ''nonce'')"
  by (rule block_of_record_KeyError) (simp add: required_fields_def)

lemma block_of_record_untyped:
  "block_of_record H (JObj [(''index'', JStr ''one''), (''timestamp'', JStr ''2024-01-05''),
                  (''data'', JInt 7), (''previous_hash'', JStr ''00dc''),
                  (''nonce'', JNull), (''hash'', JList [])])
    = Inr \<lparr>index_v = JStr ''one'', timestamp_v = JStr ''2024-01-05'', data_v = JInt 7,
            previous_hash_v = JStr ''00dc'', nonce_v = JNull, hash_v = JList []\<rparr>"
  by (simp add: block_of_record_Inr_iff)

text \<open>
  C5 as stated fails. The first file is loaded with \<open>True\<close> although its second record
  carries a digest that is no hexadecimal string and an index below its predecessor's.
  The second file raises \<open>KeyError\<close> at its second record, and the ledger, which held
  two blocks, is left with the chain of the first record only: a partial reconstruction
  of the three records of the file.
\<close>

theorem load_from_file_accepts_corrupt:
  "\<forall>H. load_from_file H (as_objects ledger1) ''blockchain_data.json''
          [''blockchain_data.json'' \<mapsto> Document tampered_file]
        = (as_objects (ledger1\<lparr>chain := [block0,
             \<lparr>index = - 4, timestamp = ''2024-01-05'', data = diploma, previous_hash = ''00dc'',
                nonce = 3, hash = ''not hex!''\<rparr>]\<rparr>), Inr True)
      \<and> load_from_file H (as_objects ledger1) ''blockchain_data.json''
          [''blockchain_data.json'' \<mapsto> Document truncated_file]
        = (as_objects (ledger1\<lparr>chain := [block0]\<rparr>), Inl (KeyError ''nonce''))"
  by (simp add: load_from_file_def tampered_file_def truncated_file_def as_objects_def
      block_of_record_to_dict block_of_record_tampered block_of_record_truncated)

theorem load_from_file_outcome_witness:
  "[''blockchain_data.json'' \<mapsto> Document untyped_file] ''blockchain_data.json''
      = Some (Document untyped_file)
   \<and> load_from_file toy_sha (as_objects ledger0) ''blockchain_data.json''
          [''blockchain_data.json'' \<mapsto> Document untyped_file]
        = ((as_objects ledger0)\<lparr>chain_v := [as_object block0,
             \<lparr>index_v = JStr ''one'', timestamp_v = JStr ''2024-01-05'', data_v = JInt 7,
                previous_hash_v = JStr ''00dc'', nonce_v = JNull, hash_v = JList []\<rparr>,
             as_object block1]\<rparr>, Inr True)
   \<and> snd (load_from_file toy_sha (as_objects ledger0) ''blockchain_data.json''
          [''blockchain_data.json'' \<mapsto> Document truncated_file])
        = Inl (KeyError ''nonce'')"
proof -
  let ?odd = "JObj [(''index'', JStr ''one''), (''timestamp'', JStr ''2024-01-05''),
                  (''data'', JInt 7), (''previous_hash'', JStr ''00dc''),
                  (''nonce'', JNull), (''hash'', JList [])]"
  let ?cut = "JObj [(''index'', JInt 1), (''timestamp'', JStr ''2024-01-05''),
                  (''data'', JObj diploma), (''previous_hash'', JStr ''00dc''),
                  (''hash'', JStr ''0064'')]"
  have f1: "[''blockchain_data.json'' \<mapsto> Document untyped_file] ''blockchain_data.json''
      = Some (Document (JList [to_dict block0, ?odd, to_dict block1]))"
    by (simp add: untyped_file_def)
  have a1: "\<forall>r\<in>set [to_dict block0, ?odd, to_dict block1].
              \<exists>b. block_of_record toy_sha r = Inr b"
    by (simp add: block_of_record_to_dict block_of_record_untyped)
  have f2: "[''blockchain_data.json'' \<mapsto> Document truncated_file] ''blockchain_data.json''
      = Some (Document (JList [to_dict block0, ?cut, to_dict block1]))"
    by (simp add: truncated_file_def)
  have a2: "[to_dict block0, ?cut, to_dict block1] = [to_dict block0] @ ?cut # [to_dict block1]
      \<and> (\<forall>x\<in>set [to_dict block0]. \<exists>b. block_of_record toy_sha x = Inr b)
      \<and> block_of_record toy_sha ?cut = Inl (KeyError ''nonce'')"
    by (simp add: block_of_record_to_dict block_of_record_truncated)
  note t1 = load_from_file_outcome[of "[''blockchain_data.json'' \<mapsto> Document untyped_file]"
      "''blockchain_data.json''" toy_sha "as_objects ledger0"
      "[to_dict block0, ?odd, to_dict block1]"]
  note t2 = load_from_file_outcome[of "[''blockchain_data.json'' \<mapsto> Document truncated_file]"
      "''blockchain_data.json''" toy_sha "as_objects ledger0"
      "[to_dict block0, ?cut, to_dict block1]"]
  from t1 f1 a1 have "load_from_file toy_sha (as_objects ledger0) ''blockchain_data.json''
          [''blockchain_data.json'' \<mapsto> Document untyped_file]
        = ((as_objects ledger0)\<lparr>chain_v := map (projr \<circ> block_of_record toy_sha)
             [to_dict block0, ?odd, to_dict block1]\<rparr>, Inr True)"
    by blast
  moreover from t2 f2 a2 have "snd (load_from_file toy_sha (as_objects ledger0)
          ''blockchain_data.json'' [''blockchain_data.json'' \<mapsto> Document truncated_file])
        = Inl (KeyError ''nonce'')"
    by blast
  ultimately show ?thesis
    by (simp add: untyped_file_def block_of_record_to_dict block_of_record_untyped)
qed

text \<open>
  C10. A file that holds the empty JSON array is loaded with \<open>True\<close> and leaves the
  ledger with the empty chain, so without a first block; on that ledger
  \<open>get_latest_block\<close> raises \<open>IndexError\<close>, and so does \<open>add_document\<close>, which leaves the
  chain empty.
\<close>

theorem load_empty_array:
  "load_from_file H (as_objects self) filename (fs(filename \<mapsto> Document (JList [])))
     = (as_objects (self\<lparr>chain := []\<rparr>), Inr True)
   \<and> chain_v (fst (load_from_file H (as_objects self) filename
        (fs(filename \<mapsto> Document (JList []))))) = []
   \<and> as_blockchain (fst (load_from_file H (as_objects self) filename
        (fs(filename \<mapsto> Document (JList []))))) = Some (self\<lparr>chain := []\<rparr>)
   \<and> get_latest_block (self\<lparr>chain := []\<rparr>) = Inl IndexError
   \<and> add_document H (self\<lparr>chain := []\<rparr>) now p = Some (Inl IndexError)"
proof -
  have "load_from_file H (as_objects self) filename (fs(filename \<mapsto> Document (JList [])))
     = (as_objects (self\<lparr>chain := []\<rparr>), Inr True)"
    by (simp add: load_from_file_def as_objects_def)
  then show ?thesis
    by (simp add: get_latest_block_def add_document_def)
qed

section \<open>The serialisation is canonical\<close>

lemma items_of_keys:
  assumes "distinct (map fst xs)" and "set zs \<subseteq> set xs"
  shows "zs = map (\<lambda>k. (k, the (map_of xs k))) (map fst zs)"
  using assms(2)
proof (induction zs)
  case Nil
  then show ?case by simp
next
  case (Cons z zs)
  obtain k v where z: "z = (k, v)" by (cases z)
  with Cons.prems have "(k, v) \<in> set xs" by simp
  with assms(1) have "map_of xs k = Some v" by (rule map_of_is_SomeI)
  with z Cons show ?case by simp
qed

lemma sorted_items:
  assumes "distinct (map fst xs)"
  shows "sort_key fst xs = map (\<lambda>k. (k, the (map_of xs k))) (map fst (sort_key fst xs))"
  by (rule items_of_keys[OF assms]) simp

lemma sorted_keys_unique:
  assumes "distinct (map fst xs)" and "distinct (map fst ys)"
    and "set (map fst xs) = set (map fst ys)"
  shows "map fst (sort_key fst xs) = map fst (sort_key fst ys)"
proof (rule sorted_distinct_set_unique)
  show "sorted (map fst (sort_key fst xs))" "sorted (map fst (sort_key fst ys))"
    by (rule sorted_sort_key)+
  from assms(1) show "distinct (map fst (sort_key fst xs))"
    by (simp add: distinct_map)
  from assms(2) show "distinct (map fst (sort_key fst ys))"
    by (simp add: distinct_map)
  from assms(3) show "set (map fst (sort_key fst xs)) = set (map fst (sort_key fst ys))"
    by simp
qed

lemma dumps_same_value: "same_value a b \<Longrightarrow> dumps a = dumps b"
proof (induction rule: same_value.induct)
  case (sv_list xs ys)
  then have "map dumps xs = map dumps ys"
    by (induction rule: list_all2_induct) simp_all
  then show ?case by simp
next
  case (sv_obj xs ys)
  let ?ks = "map fst (sort_key fst xs)"
  let ?item = "\<lambda>kv. encode_str (fst kv) @ '': '' @ dumps (snd kv)"
  have ks: "map fst (sort_key fst ys) = ?ks"
    using sv_obj.hyps(1,2,3) by (rule sorted_keys_unique[symmetric])
  have x: "map ?item (sort_key fst xs)
          = map (\<lambda>k. encode_str k @ '': '' @ dumps (the (map_of xs k))) ?ks"
    by (subst sorted_items[OF sv_obj.hyps(1)]) (simp add: comp_def)
  have y: "map ?item (sort_key fst ys)
          = map (\<lambda>k. encode_str k @ '': '' @ dumps (the (map_of ys k))) (map fst (sort_key fst ys))"
    by (subst sorted_items[OF sv_obj.hyps(2)]) (simp add: comp_def)
  have "map (\<lambda>k. encode_str k @ '': '' @ dumps (the (map_of xs k))) ?ks
          = map (\<lambda>k. encode_str k @ '': '' @ dumps (the (map_of ys k))) ?ks"
    using sv_obj.IH by simp
  with x y ks have "map ?item (sort_key fst xs) = map ?item (sort_key fst ys)"
    by simp
  then show ?case by simp
qed simp_all

text \<open>
  C8. The digest is a function of the index, the timestamp, the payload, the previous
  digest and the nonce alone: two blocks that agree on the four scalar fields and whose
  payloads are the same value, whatever the order in which the keys were inserted at any
  depth, have the same digest, whatever their stored digests are. A block read back from
  its saved record has the digest of the block saved.
\<close>

theorem calculate_hash_canonical:
  assumes "index a = index b" and "timestamp a = timestamp b"
    and "same_value (JObj (data a)) (JObj (data b))"
    and "previous_hash a = previous_hash b" and "nonce a = nonce b"
  shows "calculate_hash H a = calculate_hash H b
    \<and> calculate_hash_object H (projr (block_of_record H' (to_dict a))) = calculate_hash H b"
proof -
  let ?rec = "\<lambda>x. [(''index'', JInt (index x)), (''timestamp'', JStr (timestamp x)),
                   (''data'', JObj (data x)), (''previous_hash'', JStr (previous_hash x)),
                   (''nonce'', JInt (nonce x))]"
  have "same_value (JObj (?rec a)) (JObj (?rec b))"
  proof (rule sv_obj)
    fix k
    assume "k \<in> set (map fst (?rec a))"
    then consider "k = ''index''" | "k = ''timestamp''" | "k = ''data''"
      | "k = ''previous_hash''" | "k = ''nonce''"
      by auto
    then show "same_value (the (map_of (?rec a) k)) (the (map_of (?rec b) k))"
      using assms by cases (simp_all add: same_value.intros)
  qed simp_all
  then have "dumps (JObj (?rec a)) = dumps (JObj (?rec b))"
    by (rule dumps_same_value)
  then have "calculate_hash H a = calculate_hash H b"
    by (simp only: calculate_hash_def)
  then show ?thesis
    by (simp add: block_of_record_to_dict calculate_hash_object_as_object)
qed

lemma same_value_nested: "same_value (JObj nested) (JObj nested')"
proof -
  have m: "same_value (JObj [(''issuer'', JStr ''Acme''), (''pages'', JList [JInt 1, JInt 2])])
     (JObj [(''pages'', JList [JInt 1, JInt 2]), (''issuer'', JStr ''Acme'')])"
    by (rule sv_obj) (auto intro!: same_value.intros)
  show ?thesis
    unfolding nested_def nested'_def
    by (rule sv_obj) (use m in \<open>auto intro!: same_value.intros\<close>)
qed

theorem calculate_hash_canonical_witness:
  "same_value (JObj nested) (JObj nested') \<and> nested \<noteq> nested'
   \<and> calculate_hash toy_sha \<lparr>index = 1, timestamp = ''2024-01-05'', data = nested,
        previous_hash = ''00dc'', nonce = 3, hash = ''0064''\<rparr>
     = calculate_hash toy_sha \<lparr>index = 1, timestamp = ''2024-01-05'', data = nested',
        previous_hash = ''00dc'', nonce = 3, hash = []\<rparr>"
proof -
  have "nested \<noteq> nested'"
    by (simp add: nested_def nested'_def)
  with same_value_nested
    calculate_hash_canonical[of "\<lparr>index = 1, timestamp = ''2024-01-05'', data = nested,
        previous_hash = ''00dc'', nonce = 3, hash = ''0064''\<rparr>"
      "\<lparr>index = 1, timestamp = ''2024-01-05'', data = nested',
        previous_hash = ''00dc'', nonce = 3, hash = []\<rparr>" toy_sha toy_sha]
  show ?thesis
    by simp
qed

section \<open>The serialisation can be read back\<close>






















section \<open>Tampering\<close>













end
